theory Spec2Isabelle
  imports Complex_Main
begin

section \<open>DogMidiKey: the event-correction engine of dog\_midi\_system.py\<close>

text \<open>
  A shallow embedding of the class \<open>DogMidiSystem\<close>. Python floats are modelled by exact
  rationals (\<^typ>\<open>rat\<close>): rounding, infinities and NaN are outside the model. Python integers
  are \<^typ>\<open>int\<close>. An exception that leaves a method is the \<open>Inl\<close> branch of the result.
  Calls into the device library and the console are recorded as a list of effects, in the
  order the method performs them.
\<close>

subsection \<open>Data model\<close>

text \<open>
  The dataclass \<open>NoteEvent\<close>. The field \<open>note\<close> of the source is \<open>note'\<close> here, since
  \<open>note\<close> is reserved.
\<close>

record NoteEvent =
  note' :: int
  velocity :: int
  start_time :: rat
  duration :: rat
  bar :: int
  beat :: rat

text \<open>
  What the decoding library hands over: a note of an instrument, and an instrument (its
  attribute \<open>notes\<close> is \<open>inst_notes\<close> here).
\<close>

datatype midi_note = Note (n_pitch: int) (n_velocity: int) (n_start: rat) (n_end: rat)

datatype instrument = Instrument (is_drum: bool) (inst_notes: "midi_note list")

text \<open>
  The outcome of the library calls at the head of \<open>load_midi_file\<close>, before the note loop:
  either one of them raises (the constructor \<open>PrettyMIDI\<close>, \<open>get_tempo_changes\<close> or the
  truth test on the tempo array), which happens before \<open>self.tempo\<close> is assigned and before
  any note is appended, or the file is decoded, with the tempo the source assigns when the
  test \<open>if midi_data.get_tempo_changes()[1]\<close> holds (\<open>None\<close> when it does not) and the
  instruments.
\<close>

datatype midi_source = Undecodable | Decoded "rat option" "instrument list"

datatype py_error = ZeroDivisionError | IndexError | RuntimeError

text \<open>
  The fields of a \<open>DogMidiSystem\<close> object. \<open>session_start\<close> is the attribute
  \<open>self.start_time\<close> (the name is taken by \<open>NoteEvent\<close>). \<open>melody_index\<close> is \<open>None\<close>
  while the attribute does not exist (\<open>hasattr\<close> is false). A device handle is the device id.
  The attributes \<open>midi_file_path\<close>, \<open>current_bar\<close> and \<open>current_beat\<close>, which no method
  reads, are left out.
\<close>

record DogMidiSystem =
  original_notes :: "NoteEvent list"
  tempo :: rat
  time_signature :: "int \<times> int"
  is_playing :: bool
  session_start :: "rat option"
  midi_input :: "nat option"
  midi_output :: "nat option"
  timing_tolerance :: rat
  pitch_correction_range :: int
  randomness_factor :: rat
  melody_index :: "nat option"

text \<open>The assignments of \<open>__init__\<close> (lines 31-48), before the file is loaded.\<close>

definition init_fields :: DogMidiSystem where
  "init_fields =
     \<lparr>original_notes = [], tempo = 120, time_signature = (4, 4), is_playing = False,
      session_start = None, midi_input = None, midi_output = None,
      timing_tolerance = 1 / 2, pitch_correction_range = 12, randomness_factor = 1 / 10,
      melody_index = None\<rparr>"

datatype effect =
    Print string
  | PrintStep nat nat int
  | NoteOn int int
  | TimerNoteOff rat int
  | SpawnListener
  | CloseInput nat
  | CloseOutput nat
  | MidiQuit

subsection \<open>Python arithmetic\<close>

definition bind_res :: "'e + 'a \<Rightarrow> ('a \<Rightarrow> 'e + 'b) \<Rightarrow> 'e + 'b" where
  "bind_res m f = (case m of Inl e \<Rightarrow> Inl e | Inr x \<Rightarrow> f x)"

definition py_truediv :: "rat \<Rightarrow> rat \<Rightarrow> py_error + rat" where
  "py_truediv x y = (if y = 0 then Inl ZeroDivisionError else Inr (x / y))"

definition py_floordiv :: "rat \<Rightarrow> rat \<Rightarrow> py_error + int" where
  "py_floordiv x y = (if y = 0 then Inl ZeroDivisionError else Inr \<lfloor>x / y\<rfloor>)"

definition py_mod :: "rat \<Rightarrow> rat \<Rightarrow> py_error + rat" where
  "py_mod x y =
     (if y = 0 then Inl ZeroDivisionError else Inr (x - of_int \<lfloor>x / y\<rfloor> * y))"

subsection \<open>Loading the reference melody\<close>

text \<open>
  Lines 68-82: the \<open>NoteEvent\<close> of one decoded note, at the session's tempo and time
  signature.
\<close>

definition note_event_of :: "rat \<Rightarrow> int \<times> int \<Rightarrow> midi_note \<Rightarrow> py_error + NoteEvent" where
  "note_event_of tmp ts n =
     bind_res (py_truediv 60 tmp) (\<lambda>beat_duration.
     let beats_per_bar = fst ts in
     bind_res (py_truediv (n_start n) beat_duration) (\<lambda>total_beats.
     bind_res (py_floordiv total_beats (of_int beats_per_bar)) (\<lambda>b.
     bind_res (py_mod total_beats (of_int beats_per_bar)) (\<lambda>bt.
       Inr \<lparr>note' = n_pitch n, velocity = n_velocity n, start_time = n_start n,
            duration = n_end n - n_start n, bar = b, beat = bt\<rparr>))))"

text \<open>
  The notes the two nested loops of lines 64-66 visit, in the order they visit them: the
  notes of every instrument that is not a drum.
\<close>

definition raw_notes :: "instrument list \<Rightarrow> midi_note list" where
  "raw_notes instruments = concat (map inst_notes (filter (\<lambda>i. \<not> is_drum i) instruments))"

text \<open>
  The body of the loops: each note is appended to \<open>original_notes\<close>; an exception stops the
  loop and leaves what was appended so far.
\<close>

fun extract_notes ::
  "rat \<Rightarrow> int \<times> int \<Rightarrow> midi_note list \<Rightarrow> NoteEvent list \<Rightarrow> NoteEvent list \<times> py_error option"
where
  "extract_notes tmp ts [] acc = (acc, None)"
| "extract_notes tmp ts (n # ns) acc =
     (case note_event_of tmp ts n of
        Inl e \<Rightarrow> (acc, Some e)
      | Inr ev \<Rightarrow> extract_notes tmp ts ns (acc @ [ev]))"

definition c_major_scale :: "int list" where
  "c_major_scale = [60, 62, 64, 65, 67, 69, 71, 72]"

text \<open>
  Lines 95-114. The division \<open>60.0 / self.tempo\<close> is outside any handler here. The
  \<open>print\<close> call is left out.
\<close>

definition create_fallback_melody :: "DogMidiSystem \<Rightarrow> py_error + DogMidiSystem" where
  "create_fallback_melody st =
     bind_res (py_truediv 60 (tempo st)) (\<lambda>beat_duration.
       Inr (st\<lparr>original_notes := original_notes st @
         map (\<lambda>(i, n).
               \<lparr>note' = n, velocity = 80, start_time = of_nat i * beat_duration,
                duration = beat_duration * (8 / 10),
                bar = int (i div 8), beat = of_nat (i mod 8) / 2\<rparr>)
             (enumerate 0 (concat (replicate 4 c_major_scale)))\<rparr>))"

text \<open>
  Lines 54-93. Python's \<open>list.sort\<close> is stable; \<^const>\<open>sort_key\<close> is the stable insertion
  sort of the library. The \<open>print\<close> calls of this method are left out.
\<close>

definition load_midi_file :: "DogMidiSystem \<Rightarrow> midi_source \<Rightarrow> py_error + DogMidiSystem" where
  "load_midi_file st src =
     (case src of
        Undecodable \<Rightarrow> create_fallback_melody st
      | Decoded tempo_change instruments \<Rightarrow>
          (let st1 = (case tempo_change of None \<Rightarrow> st | Some t \<Rightarrow> st\<lparr>tempo := t\<rparr>) in
           case extract_notes (tempo st1) (time_signature st1) (raw_notes instruments)
                  (original_notes st1) of
             (ns, Some e) \<Rightarrow> create_fallback_melody (st1\<lparr>original_notes := ns\<rparr>)
           | (ns, None) \<Rightarrow> Inr (st1\<lparr>original_notes := sort_key start_time ns\<rparr>)))"

subsection \<open>Nearest match\<close>

text \<open>
  Lines 171-205. \<open>best_match\<close> is the second loop with its two variables \<open>best_note\<close> and
  \<open>best_score\<close>; the score \<open>None\<close> stands for \<open>float('inf')\<close>, below which every score lies.
\<close>

fun best_match ::
  "DogMidiSystem \<Rightarrow> int \<Rightarrow> rat \<Rightarrow> NoteEvent list \<Rightarrow> NoteEvent option \<times> rat option
     \<Rightarrow> NoteEvent option \<times> rat option"
where
  "best_match st input_note current_beat [] acc = acc"
| "best_match st input_note current_beat (note_event # rest) (best_note, best_score) =
     (let pitch_diff = \<bar>note' note_event - input_note\<bar> in
      if pitch_diff > pitch_correction_range st
      then best_match st input_note current_beat rest (best_note, best_score)
      else
        let beat_diff = \<bar>beat note_event - current_beat\<bar> in
        if beat_diff > timing_tolerance st * tempo st / 60
        then best_match st input_note current_beat rest (best_note, best_score)
        else
          let score = of_int pitch_diff * (7 / 10) + beat_diff * (3 / 10) in
          if (case best_score of None \<Rightarrow> True | Some b \<Rightarrow> score < b)
          then best_match st input_note current_beat rest (Some note_event, Some score)
          else best_match st input_note current_beat rest (best_note, best_score))"

definition find_closest_note :: "DogMidiSystem \<Rightarrow> int \<Rightarrow> int \<Rightarrow> rat \<Rightarrow> NoteEvent option" where
  "find_closest_note st input_note current_bar current_beat =
     (let candidate_notes =
            filter (\<lambda>note_event. \<bar>bar note_event - current_bar\<bar> \<le> 1) (original_notes st)
      in if candidate_notes = [] then None
         else fst (best_match st input_note current_beat candidate_notes (None, None)))"

text \<open>
  The words of the specification for the nearest match: a note within the pitch range and
  the timing tolerance (in beats), a note that survives all three filters, and the score
  of a note.
\<close>

definition within_tolerance :: "DogMidiSystem \<Rightarrow> int \<Rightarrow> rat \<Rightarrow> NoteEvent \<Rightarrow> bool" where
  "within_tolerance st input_pitch current_beat e \<longleftrightarrow>
     \<bar>note' e - input_pitch\<bar> \<le> pitch_correction_range st \<and>
     \<bar>beat e - current_beat\<bar> \<le> timing_tolerance st * tempo st / 60"

definition survives :: "DogMidiSystem \<Rightarrow> int \<Rightarrow> int \<Rightarrow> rat \<Rightarrow> NoteEvent \<Rightarrow> bool" where
  "survives st input_pitch current_bar current_beat e \<longleftrightarrow>
     \<bar>bar e - current_bar\<bar> \<le> 1 \<and> within_tolerance st input_pitch current_beat e"

definition match_score :: "int \<Rightarrow> rat \<Rightarrow> NoteEvent \<Rightarrow> rat" where
  "match_score input_pitch current_beat e =
     7 / 10 * of_int \<bar>note' e - input_pitch\<bar> + 3 / 10 * \<bar>beat e - current_beat\<bar>"

subsection \<open>Randomness\<close>

text \<open>
  The module \<open>random\<close> is not part of the program: a random source is any pair of functions
  on a generator state, \<open>random.random()\<close> and \<open>random.randint(a, b)\<close>. \<open>random_ok\<close> is what
  the library documents of them: a float in \<open>[0, 1)\<close>, an integer in \<open>[a, b]\<close>.
\<close>

record 'g random_source =
  rnd_random :: "'g \<Rightarrow> rat \<times> 'g"
  rnd_randint :: "int \<Rightarrow> int \<Rightarrow> 'g \<Rightarrow> int \<times> 'g"

definition random_ok :: "'g random_source \<Rightarrow> bool" where
  "random_ok R \<longleftrightarrow>
     (\<forall>g. 0 \<le> fst (rnd_random R g) \<and> fst (rnd_random R g) < 1) \<and>
     (\<forall>a b g. a \<le> b \<longrightarrow> a \<le> fst (rnd_randint R a b g) \<and> fst (rnd_randint R a b g) \<le> b)"

text \<open>A source for concrete runs: the state is a counter, every draw advances it.\<close>

definition counter_source :: "nat random_source" where
  "counter_source =
     \<lparr>rnd_random = (\<lambda>g. (of_nat (g mod 10) / 10, Suc g)),
      rnd_randint = (\<lambda>a b g. (a + int g mod (b - a + 1), Suc g))\<rparr>"

text \<open>Lines 207-218.\<close>

definition apply_randomness ::
  "'g random_source \<Rightarrow> rat \<Rightarrow> 'g \<Rightarrow> int \<Rightarrow> int \<Rightarrow> (int \<times> int) \<times> 'g"
where
  "apply_randomness R factor g n v =
     (case rnd_random R g of (u, g1) \<Rightarrow>
        if u < factor then
          (case rnd_randint R (- 2) 2 g1 of (note_variation, g2) \<Rightarrow>
             let n1 = max 0 (min 127 (n + note_variation)) in
             (case rnd_randint R (- 10) 10 g2 of (velocity_variation, g3) \<Rightarrow>
                let v1 = max 1 (min 127 (v + velocity_variation)) in
                ((n1, v1), g3)))
        else ((n, v), g1))"

subsection \<open>The live input path\<close>

text \<open>
  Lines 220-245. \<open>cursor\<close> is the value of \<open>self.melody_index\<close> once lines 224-225 have
  run: 0 when the attribute did not exist. The result carries the new object, the generator
  state, the note taken from the melody (\<open>note_event\<close>, \<open>None\<close> on the early return) and
  the effects.
\<close>

definition cursor :: "DogMidiSystem \<Rightarrow> nat" where
  "cursor st = (case melody_index st of None \<Rightarrow> 0 | Some i \<Rightarrow> i)"

definition process_input_note ::
  "'g random_source \<Rightarrow> DogMidiSystem \<Rightarrow> 'g \<Rightarrow> int \<Rightarrow> int
     \<Rightarrow> py_error + (DogMidiSystem \<times> 'g \<times> NoteEvent option \<times> effect list)"
where
  "process_input_note R st g input_note input_velocity =
     (let idx = cursor st;
          st1 = st\<lparr>melody_index := Some idx\<rparr>
      in if original_notes st1 = []
         then Inr (st1, g, None, [Print ''No original melody loaded.''])
         else if idx \<ge> length (original_notes st1) then Inl IndexError
         else
           let note_event = original_notes st1 ! idx;
               st2 = st1\<lparr>melody_index := Some ((idx + 1) mod length (original_notes st1))\<rparr>
           in (case apply_randomness R (randomness_factor st2) g
                      (note' note_event) (velocity note_event) of
                 ((corrected_note, corrected_velocity), g1) \<Rightarrow>
                   Inr (st2, g1, Some note_event,
                        (case midi_output st2 of
                           None \<Rightarrow> []
                         | Some h \<Rightarrow> [NoteOn corrected_note corrected_velocity,
                                       TimerNoteOff (1 / 2) corrected_note])
                        @ [PrintStep ((idx + 1) mod length (original_notes st1))
                             (length (original_notes st1)) corrected_note])))"


text \<open>An object with a melody of two notes and an output device, for concrete runs.\<close>

definition two_note_session :: DogMidiSystem where
  "two_note_session =
     init_fields\<lparr>original_notes :=
       [\<lparr>note' = 60, velocity = 80, start_time = 0, duration = 2 / 5, bar = 0, beat = 0\<rparr>,
        \<lparr>note' = 64, velocity = 90, start_time = 1 / 2, duration = 2 / 5, bar = 0, beat = 1\<rparr>],
       midi_output := Some 1\<rparr>"

text \<open>
  A decoded file for concrete runs: two melodic instruments around a drum track, two notes
  starting together at 1 second.
\<close>

definition sample_instruments :: "instrument list" where
  "sample_instruments =
     [Instrument False [Note 64 90 1 2, Note 60 70 0 1],
      Instrument True [Note 36 100 0 1],
      Instrument False [Note 67 50 1 3, Note 72 50 (1 / 2) 1]]"

subsection \<open>Starting and stopping\<close>

text \<open>
  Lines 267-282: \<open>start\<close> up to the point where the listener thread runs and the display
  loop begins; \<open>now\<close> is the value of \<open>time.time()\<close>. Both branches return normally.
  The printed messages are given without the emoji and the line break the source puts in
  front of some of them.
\<close>

definition start :: "DogMidiSystem \<Rightarrow> rat \<Rightarrow> py_error + (DogMidiSystem \<times> effect list)" where
  "start st now =
     (case midi_input st of
        None \<Rightarrow> Inr (st, [Print ''No MIDI input device available. Cannot start system.''])
      | Some h \<Rightarrow>
          Inr (st\<lparr>is_playing := True, session_start := Some now\<rparr>,
               [Print ''Dog MIDI System started!'',
                Print ''Let your dog play the keyboard - notes will be automatically corrected to sound musical!'',
                SpawnListener]))"

text \<open>
  The device library is not part of the program: it is any triple of operations on a
  library state, the \<open>close()\<close> of an input handle, the \<open>close()\<close> of an output handle and
  \<open>pygame.midi.quit()\<close>. Each gives back the exception it raises, if any, and the library
  state it leaves.
\<close>

record 'd midi_library =
  close_input :: "nat \<Rightarrow> 'd \<Rightarrow> py_error option \<times> 'd"
  close_output :: "nat \<Rightarrow> 'd \<Rightarrow> py_error option \<times> 'd"
  quit_midi :: "'d \<Rightarrow> py_error option \<times> 'd"

text \<open>
  Lines 292-300. \<open>stop\<close> has no handler: an exception raised by a library call leaves
  the method at that call, and the statements after it do not run. The attributes
  \<open>midi_input\<close> and \<open>midi_output\<close> are tested and used, never assigned. The result is the
  exception that left the method (\<open>None\<close> when it returned), the object, the library state,
  and the calls made, the raising one included.
\<close>

definition stop ::
  "'d midi_library \<Rightarrow> DogMidiSystem \<Rightarrow> 'd
     \<Rightarrow> py_error option \<times> DogMidiSystem \<times> 'd \<times> effect list"
where
  "stop L st d =
     (let st1 = st\<lparr>is_playing := False\<rparr>;
          out1 = (case midi_input st1 of None \<Rightarrow> [] | Some h \<Rightarrow> [CloseInput h])
      in case (case midi_input st1 of None \<Rightarrow> (None, d) | Some h \<Rightarrow> close_input L h d) of
           (Some e, d1) \<Rightarrow> (Some e, st1, d1, out1)
         | (None, d1) \<Rightarrow>
             (let out2 = out1 @ (case midi_output st1 of None \<Rightarrow> [] | Some h \<Rightarrow> [CloseOutput h])
              in case (case midi_output st1 of None \<Rightarrow> (None, d1)
                       | Some h \<Rightarrow> close_output L h d1) of
                   (Some e, d2) \<Rightarrow> (Some e, st1, d2, out2)
                 | (None, d2) \<Rightarrow>
                     (case quit_midi L d2 of
                        (Some e, d3) \<Rightarrow> (Some e, st1, d3, out2 @ [MidiQuit])
                      | (None, d3) \<Rightarrow>
                          (None, st1, d3,
                           out2 @ [MidiQuit, Print ''Dog MIDI System stopped!'']))))"

text \<open>
  Two calls in succession: the second works on the object and the library state the first
  left; when the first raises, the second is not reached.
\<close>

definition stop_twice ::
  "'d midi_library \<Rightarrow> DogMidiSystem \<Rightarrow> 'd
     \<Rightarrow> py_error option \<times> DogMidiSystem \<times> 'd \<times> effect list"
where
  "stop_twice L st d =
     (case stop L st d of
        (Some e, st1, d1, out1) \<Rightarrow> (Some e, st1, d1, out1)
      | (None, st1, d1, out1) \<Rightarrow>
          (case stop L st1 d1 of (r, st2, d2, out2) \<Rightarrow> (r, st2, d2, out1 @ out2)))"

text \<open>
  The library the program imports, \<open>pygame.midi\<close>, as far as \<open>stop\<close> uses it. The module
  keeps a flag set by \<open>init()\<close> and cleared by \<open>quit()\<close>, which terminates the streams;
  \<open>quit()\<close> does nothing when the flag is clear. \<open>Input.close()\<close> and \<open>Output.close()\<close>
  begin with the module's check of the flag, which raises \<open>RuntimeError\<close> when it is
  clear, and then close the stream if it is still open.
\<close>

record pygame_state =
  pm_init :: bool
  pm_open :: "nat list"

definition pygame_close :: "nat \<Rightarrow> pygame_state \<Rightarrow> py_error option \<times> pygame_state" where
  "pygame_close h d =
     (if \<not> pm_init d then (Some RuntimeError, d)
      else (None, d\<lparr>pm_open := removeAll h (pm_open d)\<rparr>))"

definition pygame_quit :: "pygame_state \<Rightarrow> py_error option \<times> pygame_state" where
  "pygame_quit d = (None, if pm_init d then d\<lparr>pm_init := False, pm_open := []\<rparr> else d)"

definition pygame_midi :: "pygame_state midi_library" where
  "pygame_midi =
     \<lparr>close_input = pygame_close, close_output = pygame_close, quit_midi = pygame_quit\<rparr>"

section \<open>Properties\<close>

subsection \<open>Helper facts\<close>

lemma counter_source_ok: "random_ok counter_source"
  unfolding random_ok_def counter_source_def
proof (intro conjI allI impI)
  fix g :: nat
  show "0 \<le> fst (rnd_random \<lparr>rnd_random = (\<lambda>g. (of_nat (g mod 10) / 10, Suc g)),
      rnd_randint = (\<lambda>a b g. (a + int g mod (b - a + 1), Suc g))\<rparr> g)" by simp
  have "g mod 10 < 10" by simp
  then have "(of_nat (g mod 10) :: rat) < 10" by (metis of_nat_less_iff of_nat_numeral)
  then show "fst (rnd_random \<lparr>rnd_random = (\<lambda>g. (of_nat (g mod 10) / 10, Suc g)),
      rnd_randint = (\<lambda>a b g. (a + int g mod (b - a + 1), Suc g))\<rparr> g) < 1" by simp
next
  fix a b :: int and g :: nat
  assume "a \<le> b"
  then have pos: "0 < b - a + 1" by simp
  have "0 \<le> int g mod (b - a + 1)" "int g mod (b - a + 1) < b - a + 1"
    using pos by (rule pos_mod_sign, rule pos_mod_bound)
  then show "a \<le> fst (rnd_randint \<lparr>rnd_random = (\<lambda>g. (of_nat (g mod 10) / 10, Suc g)),
      rnd_randint = (\<lambda>a b g. (a + int g mod (b - a + 1), Suc g))\<rparr> a b g)"
    "fst (rnd_randint \<lparr>rnd_random = (\<lambda>g. (of_nat (g mod 10) / 10, Suc g)),
      rnd_randint = (\<lambda>a b g. (a + int g mod (b - a + 1), Suc g))\<rparr> a b g) \<le> b"
    by simp_all
qed

lemma fallback_list_length: "length (concat (replicate 4 c_major_scale)) = 32"
  by (simp add: c_major_scale_def eval_nat_numeral)

lemma map_enumerate_fst:
  "map (\<lambda>(i, n). f i) (enumerate k xs) = map f [k..<k + length xs]"
proof (induction xs arbitrary: k)
  case Nil
  show ?case by simp
next
  case (Cons x xs)
  have "[k..<k + length (x # xs)] = k # [Suc k..<Suc k + length xs]"
    using upt_conv_Cons [of k "Suc k + length xs"] by simp
  then show ?case using Cons.IH [of "Suc k"] by (simp del: upt_Suc)
qed

lemma map_enumerate_snd:
  "map (\<lambda>(i, n). f n) (enumerate k xs) = map f xs"
  by (induction xs arbitrary: k) simp_all

lemma note_event_of_ok:
  assumes "tmp \<noteq> 0" and "fst ts \<noteq> 0"
  shows "\<exists>b bt. note_event_of tmp ts n =
           Inr \<lparr>note' = n_pitch n, velocity = n_velocity n, start_time = n_start n,
                duration = n_end n - n_start n, bar = b, beat = bt\<rparr>"
  using assms
  by (simp add: note_event_of_def bind_res_def py_truediv_def py_floordiv_def py_mod_def Let_def)

lemma extract_notes_ok:
  assumes "tmp \<noteq> 0" and "fst ts \<noteq> 0"
  shows "\<exists>evs. extract_notes tmp ts ns acc = (acc @ evs, None) \<and>
           map (\<lambda>e. (note' e, velocity e, start_time e, duration e)) evs =
           map (\<lambda>n. (n_pitch n, n_velocity n, n_start n, n_end n - n_start n)) ns"
proof (induction ns arbitrary: acc)
  case Nil
  show ?case by simp
next
  case (Cons n ns)
  obtain b bt where ev: "note_event_of tmp ts n =
      Inr \<lparr>note' = n_pitch n, velocity = n_velocity n, start_time = n_start n,
           duration = n_end n - n_start n, bar = b, beat = bt\<rparr>"
    using note_event_of_ok [OF assms] by blast
  let ?e = "\<lparr>note' = n_pitch n, velocity = n_velocity n, start_time = n_start n,
           duration = n_end n - n_start n, bar = b, beat = bt\<rparr>"
  obtain evs where evs: "extract_notes tmp ts ns (acc @ [?e]) = ((acc @ [?e]) @ evs, None)"
    "map (\<lambda>e. (note' e, velocity e, start_time e, duration e)) evs =
     map (\<lambda>n. (n_pitch n, n_velocity n, n_start n, n_end n - n_start n)) ns"
    using Cons.IH [of "acc @ [?e]"] by blast
  have "extract_notes tmp ts (n # ns) acc = (acc @ (?e # evs), None)"
    using ev evs(1) by simp
  moreover have "map (\<lambda>e. (note' e, velocity e, start_time e, duration e)) (?e # evs) =
     map (\<lambda>n. (n_pitch n, n_velocity n, n_start n, n_end n - n_start n)) (n # ns)"
    using evs(2) by simp
  ultimately show ?case by blast
qed

lemma filter_by_key:
  assumes "map f xs = map g ys" and "\<And>x. k (f x) = h x" and "\<And>y. k (g y) = h' y"
  shows "map f (filter (\<lambda>x. h x = t) xs) = map g (filter (\<lambda>y. h' y = t) ys)"
proof -
  have "map f (filter (\<lambda>x. h x = t) xs) = filter (\<lambda>p. k p = t) (map f xs)"
    by (simp add: filter_map comp_def assms(2))
  also have "\<dots> = filter (\<lambda>p. k p = t) (map g ys)" by (simp only: assms(1))
  also have "\<dots> = map g (filter (\<lambda>y. h' y = t) ys)"
    by (simp add: filter_map comp_def assms(3))
  finally show ?thesis .
qed




lemma score_eq:
  "of_int \<bar>note' e - p\<bar> * (7 / 10) + \<bar>beat e - cb\<bar> * (3 / 10) = match_score p cb e"
  by (simp add: match_score_def)

lemma best_match_Cons:
  "best_match st p cb (e # es) (bn, bs) =
     (if within_tolerance st p cb e \<and>
         (case bs of None \<Rightarrow> True | Some b \<Rightarrow> match_score p cb e < b)
      then best_match st p cb es (Some e, Some (match_score p cb e))
      else best_match st p cb es (bn, bs))"
  unfolding best_match.simps Let_def score_eq
  by (auto simp add: within_tolerance_def)

lemma match_score_nonneg: "0 \<le> match_score p cb e"
  by (simp add: match_score_def)

lemma filter_split:
  "filter P xs = pre' @ r # post' \<Longrightarrow>
   \<exists>pre post. xs = pre @ r # post \<and> filter P pre = pre' \<and> filter P post = post' \<and> P r"
proof (induction xs arbitrary: pre')
  case Nil
  then show ?case by simp
next
  case (Cons x xs)
  show ?case
  proof (cases "P x")
    case False
    with Cons.prems have "filter P xs = pre' @ r # post'" by simp
    then obtain pre post where "xs = pre @ r # post" "filter P pre = pre'"
      "filter P post = post'" "P r"
      using Cons.IH by blast
    then have "x # xs = (x # pre) @ r # post \<and> filter P (x # pre) = pre' \<and>
      filter P post = post' \<and> P r" using False by simp
    then show ?thesis by blast
  next
    case True
    with Cons.prems have eq: "x # filter P xs = pre' @ r # post'" by simp
    show ?thesis
    proof (cases pre')
      case Nil
      with eq have "x = r" "filter P xs = post'" by simp_all
      then have "x # xs = [] @ r # xs \<and> filter P [] = pre' \<and> filter P xs = post' \<and> P r"
        using True Nil by simp
      then show ?thesis by blast
    next
      case (Cons y ys)
      with eq have "x = y" "filter P xs = ys @ r # post'" by simp_all
      then obtain pre post where "xs = pre @ r # post" "filter P pre = ys"
        "filter P post = post'" "P r"
        using Cons.IH by blast
      then have "x # xs = (x # pre) @ r # post \<and> filter P (x # pre) = pre' \<and>
        filter P post = post' \<and> P r" using True Cons \<open>x = y\<close> by simp
      then show ?thesis by blast
    qed
  qed
qed


lemma best_match_from_some:
  "\<exists>r. best_match st p cb es (Some a, Some (match_score p cb a)) =
          (Some r, Some (match_score p cb r)) \<and>
       ((r = a \<and>
         (\<forall>e\<in>set es. within_tolerance st p cb e \<longrightarrow> match_score p cb a \<le> match_score p cb e)) \<or>
        (\<exists>pre post. es = pre @ r # post \<and> within_tolerance st p cb r \<and>
           match_score p cb r < match_score p cb a \<and>
           (\<forall>e\<in>set pre. within_tolerance st p cb e \<longrightarrow> match_score p cb r < match_score p cb e) \<and>
           (\<forall>e\<in>set post. within_tolerance st p cb e \<longrightarrow> match_score p cb r \<le> match_score p cb e)))"
proof (induction es arbitrary: a)
  case Nil
  show ?case by simp
next
  case (Cons x es)
  let ?ok = "within_tolerance st p cb"
  let ?sc = "match_score p cb"
  show ?case
  proof (cases "?ok x \<and> ?sc x < ?sc a")
    case True
    have step: "best_match st p cb (x # es) (Some a, Some (?sc a)) =
                best_match st p cb es (Some x, Some (?sc x))"
      using True by (simp add: best_match_Cons del: best_match.simps)
    obtain r where r: "best_match st p cb es (Some x, Some (?sc x)) = (Some r, Some (?sc r))"
      and alt: "(r = x \<and> (\<forall>e\<in>set es. ?ok e \<longrightarrow> ?sc x \<le> ?sc e)) \<or>
        (\<exists>pre post. es = pre @ r # post \<and> ?ok r \<and> ?sc r < ?sc x \<and>
           (\<forall>e\<in>set pre. ?ok e \<longrightarrow> ?sc r < ?sc e) \<and>
           (\<forall>e\<in>set post. ?ok e \<longrightarrow> ?sc r \<le> ?sc e))"
      using Cons.IH [of x] by blast
    have "\<exists>pre post. x # es = pre @ r # post \<and> ?ok r \<and> ?sc r < ?sc a \<and>
           (\<forall>e\<in>set pre. ?ok e \<longrightarrow> ?sc r < ?sc e) \<and>
           (\<forall>e\<in>set post. ?ok e \<longrightarrow> ?sc r \<le> ?sc e)"
      using alt
    proof
      assume h: "r = x \<and> (\<forall>e\<in>set es. ?ok e \<longrightarrow> ?sc x \<le> ?sc e)"
      then have "x # es = [] @ r # es \<and> ?ok r \<and> ?sc r < ?sc a \<and>
           (\<forall>e\<in>set []. ?ok e \<longrightarrow> ?sc r < ?sc e) \<and>
           (\<forall>e\<in>set es. ?ok e \<longrightarrow> ?sc r \<le> ?sc e)"
        using True by simp
      then show ?thesis by blast
    next
      assume "\<exists>pre post. es = pre @ r # post \<and> ?ok r \<and> ?sc r < ?sc x \<and>
           (\<forall>e\<in>set pre. ?ok e \<longrightarrow> ?sc r < ?sc e) \<and>
           (\<forall>e\<in>set post. ?ok e \<longrightarrow> ?sc r \<le> ?sc e)"
      then obtain pre post where h: "es = pre @ r # post" "?ok r" "?sc r < ?sc x"
        "\<forall>e\<in>set pre. ?ok e \<longrightarrow> ?sc r < ?sc e" "\<forall>e\<in>set post. ?ok e \<longrightarrow> ?sc r \<le> ?sc e"
        by blast
      have "x # es = (x # pre) @ r # post \<and> ?ok r \<and> ?sc r < ?sc a \<and>
           (\<forall>e\<in>set (x # pre). ?ok e \<longrightarrow> ?sc r < ?sc e) \<and>
           (\<forall>e\<in>set post. ?ok e \<longrightarrow> ?sc r \<le> ?sc e)"
        using h True by auto
      then show ?thesis by blast
    qed
    then show ?thesis using step r by simp
  next
    case False
    have step: "best_match st p cb (x # es) (Some a, Some (?sc a)) =
                best_match st p cb es (Some a, Some (?sc a))"
      using False by (auto simp add: best_match_Cons simp del: best_match.simps)
    obtain r where r: "best_match st p cb es (Some a, Some (?sc a)) = (Some r, Some (?sc r))"
      and alt: "(r = a \<and> (\<forall>e\<in>set es. ?ok e \<longrightarrow> ?sc a \<le> ?sc e)) \<or>
        (\<exists>pre post. es = pre @ r # post \<and> ?ok r \<and> ?sc r < ?sc a \<and>
           (\<forall>e\<in>set pre. ?ok e \<longrightarrow> ?sc r < ?sc e) \<and>
           (\<forall>e\<in>set post. ?ok e \<longrightarrow> ?sc r \<le> ?sc e))"
      using Cons.IH [of a] by blast
    have x_ge: "?ok x \<longrightarrow> ?sc a \<le> ?sc x" using False by auto
    have "(r = a \<and> (\<forall>e\<in>set (x # es). ?ok e \<longrightarrow> ?sc a \<le> ?sc e)) \<or>
        (\<exists>pre post. x # es = pre @ r # post \<and> ?ok r \<and> ?sc r < ?sc a \<and>
           (\<forall>e\<in>set pre. ?ok e \<longrightarrow> ?sc r < ?sc e) \<and>
           (\<forall>e\<in>set post. ?ok e \<longrightarrow> ?sc r \<le> ?sc e))"
      using alt
    proof
      assume "r = a \<and> (\<forall>e\<in>set es. ?ok e \<longrightarrow> ?sc a \<le> ?sc e)"
      then have "r = a \<and> (\<forall>e\<in>set (x # es). ?ok e \<longrightarrow> ?sc a \<le> ?sc e)"
        using x_ge by simp
      then show ?thesis by (rule disjI1)
    next
      assume "\<exists>pre post. es = pre @ r # post \<and> ?ok r \<and> ?sc r < ?sc a \<and>
           (\<forall>e\<in>set pre. ?ok e \<longrightarrow> ?sc r < ?sc e) \<and>
           (\<forall>e\<in>set post. ?ok e \<longrightarrow> ?sc r \<le> ?sc e)"
      then obtain pre post where h: "es = pre @ r # post" "?ok r" "?sc r < ?sc a"
        "\<forall>e\<in>set pre. ?ok e \<longrightarrow> ?sc r < ?sc e" "\<forall>e\<in>set post. ?ok e \<longrightarrow> ?sc r \<le> ?sc e"
        by blast
      have "x # es = (x # pre) @ r # post \<and> ?ok r \<and> ?sc r < ?sc a \<and>
           (\<forall>e\<in>set (x # pre). ?ok e \<longrightarrow> ?sc r < ?sc e) \<and>
           (\<forall>e\<in>set post. ?ok e \<longrightarrow> ?sc r \<le> ?sc e)"
        using h x_ge by auto
      then have "\<exists>pre post. x # es = pre @ r # post \<and> ?ok r \<and> ?sc r < ?sc a \<and>
           (\<forall>e\<in>set pre. ?ok e \<longrightarrow> ?sc r < ?sc e) \<and>
           (\<forall>e\<in>set post. ?ok e \<longrightarrow> ?sc r \<le> ?sc e)" by blast
      then show ?thesis by (rule disjI2)
    qed
    then show ?thesis using step r by simp
  qed
qed

lemma best_match_from_none:
  "(fst (best_match st p cb es (None, None)) = None \<longleftrightarrow>
      (\<forall>e\<in>set es. \<not> within_tolerance st p cb e)) \<and>
   (\<forall>r. fst (best_match st p cb es (None, None)) = Some r \<longrightarrow>
      (\<exists>pre post. es = pre @ r # post \<and> within_tolerance st p cb r \<and>
         (\<forall>e\<in>set pre. within_tolerance st p cb e \<longrightarrow> match_score p cb r < match_score p cb e) \<and>
         (\<forall>e\<in>set post. within_tolerance st p cb e \<longrightarrow> match_score p cb r \<le> match_score p cb e)))"
proof (induction es)
  case Nil
  show ?case by simp
next
  case (Cons x es)
  let ?ok = "within_tolerance st p cb"
  let ?sc = "match_score p cb"
  show ?case
  proof (cases "?ok x")
    case False
    have step: "best_match st p cb (x # es) (None, None) = best_match st p cb es (None, None)"
      using False by (simp add: best_match_Cons del: best_match.simps)
    have a: "fst (best_match st p cb (x # es) (None, None)) = None \<longleftrightarrow>
      (\<forall>e\<in>set (x # es). \<not> ?ok e)"
      unfolding step using Cons.IH False by simp
    have b: "\<exists>pre post. x # es = pre @ r # post \<and> ?ok r \<and>
         (\<forall>e\<in>set pre. ?ok e \<longrightarrow> ?sc r < ?sc e) \<and>
         (\<forall>e\<in>set post. ?ok e \<longrightarrow> ?sc r \<le> ?sc e)"
      if r: "fst (best_match st p cb (x # es) (None, None)) = Some r" for r
    proof -
      from r have "fst (best_match st p cb es (None, None)) = Some r" unfolding step .
      then obtain pre post where h: "es = pre @ r # post" "?ok r"
        "\<forall>e\<in>set pre. ?ok e \<longrightarrow> ?sc r < ?sc e" "\<forall>e\<in>set post. ?ok e \<longrightarrow> ?sc r \<le> ?sc e"
        using Cons.IH by blast
      have "x # es = (x # pre) @ r # post \<and> ?ok r \<and>
           (\<forall>e\<in>set (x # pre). ?ok e \<longrightarrow> ?sc r < ?sc e) \<and>
           (\<forall>e\<in>set post. ?ok e \<longrightarrow> ?sc r \<le> ?sc e)"
        using h False by auto
      then show ?thesis by blast
    qed
    show ?thesis using a b by blast
  next
    case True
    have step: "best_match st p cb (x # es) (None, None) =
                best_match st p cb es (Some x, Some (?sc x))"
      using True by (simp add: best_match_Cons del: best_match.simps)
    obtain r0 where r0: "best_match st p cb es (Some x, Some (?sc x)) = (Some r0, Some (?sc r0))"
      and alt: "(r0 = x \<and> (\<forall>e\<in>set es. ?ok e \<longrightarrow> ?sc x \<le> ?sc e)) \<or>
        (\<exists>pre post. es = pre @ r0 # post \<and> ?ok r0 \<and> ?sc r0 < ?sc x \<and>
           (\<forall>e\<in>set pre. ?ok e \<longrightarrow> ?sc r0 < ?sc e) \<and>
           (\<forall>e\<in>set post. ?ok e \<longrightarrow> ?sc r0 \<le> ?sc e))"
      using best_match_from_some [of st p cb es x] by blast
    have res: "fst (best_match st p cb (x # es) (None, None)) = Some r0"
      unfolding step r0 by simp
    have a: "fst (best_match st p cb (x # es) (None, None)) = None \<longleftrightarrow>
      (\<forall>e\<in>set (x # es). \<not> ?ok e)"
      unfolding res using True by simp
    have split: "\<exists>pre post. x # es = pre @ r0 # post \<and> ?ok r0 \<and>
         (\<forall>e\<in>set pre. ?ok e \<longrightarrow> ?sc r0 < ?sc e) \<and>
         (\<forall>e\<in>set post. ?ok e \<longrightarrow> ?sc r0 \<le> ?sc e)"
      using alt
    proof
      assume "r0 = x \<and> (\<forall>e\<in>set es. ?ok e \<longrightarrow> ?sc x \<le> ?sc e)"
      then have "x # es = [] @ r0 # es \<and> ?ok r0 \<and>
           (\<forall>e\<in>set []. ?ok e \<longrightarrow> ?sc r0 < ?sc e) \<and>
           (\<forall>e\<in>set es. ?ok e \<longrightarrow> ?sc r0 \<le> ?sc e)"
        using True by simp
      then show ?thesis by blast
    next
      assume "\<exists>pre post. es = pre @ r0 # post \<and> ?ok r0 \<and> ?sc r0 < ?sc x \<and>
           (\<forall>e\<in>set pre. ?ok e \<longrightarrow> ?sc r0 < ?sc e) \<and>
           (\<forall>e\<in>set post. ?ok e \<longrightarrow> ?sc r0 \<le> ?sc e)"
      then obtain pre post where h: "es = pre @ r0 # post" "?ok r0" "?sc r0 < ?sc x"
        "\<forall>e\<in>set pre. ?ok e \<longrightarrow> ?sc r0 < ?sc e" "\<forall>e\<in>set post. ?ok e \<longrightarrow> ?sc r0 \<le> ?sc e"
        by blast
      have "x # es = (x # pre) @ r0 # post \<and> ?ok r0 \<and>
           (\<forall>e\<in>set (x # pre). ?ok e \<longrightarrow> ?sc r0 < ?sc e) \<and>
           (\<forall>e\<in>set post. ?ok e \<longrightarrow> ?sc r0 \<le> ?sc e)"
        using h by auto
      then show ?thesis by blast
    qed
    have b: "\<exists>pre post. x # es = pre @ r # post \<and> ?ok r \<and>
         (\<forall>e\<in>set pre. ?ok e \<longrightarrow> ?sc r < ?sc e) \<and>
         (\<forall>e\<in>set post. ?ok e \<longrightarrow> ?sc r \<le> ?sc e)"
      if r: "fst (best_match st p cb (x # es) (None, None)) = Some r" for r
    proof -
      from r res have "r = r0" by simp
      then show ?thesis using split by simp
    qed
    show ?thesis using a b by blast
  qed
qed

subsection \<open>Randomness stays in range\<close>

text \<open>
  Claim C5. For a random source that behaves as documented: with randomness factor 0 the
  pitch and the velocity come back unchanged; with factor 1 and an input pitch in
  \<open>[0, 127]\<close> and velocity in \<open>[1, 127]\<close>, the pitch returned lies in \<open>[0, 127]\<close> within 2
  of the input and the velocity in \<open>[1, 127]\<close> within 10 of the input, both being the
  clamped sums of the input and a drawn variation. No branch of the function raises.
\<close>

theorem apply_randomness_bounds:
  assumes ok: "random_ok R"
  shows "fst (apply_randomness R 0 g p v) = (p, v) \<and>
         (0 \<le> p \<and> p \<le> 127 \<and> 1 \<le> v \<and> v \<le> 127 \<longrightarrow>
         (case fst (apply_randomness R 1 g p v) of (p1, v1) \<Rightarrow>
            0 \<le> p1 \<and> p1 \<le> 127 \<and> \<bar>p1 - p\<bar> \<le> 2 \<and> 1 \<le> v1 \<and> v1 \<le> 127 \<and> \<bar>v1 - v\<bar> \<le> 10 \<and>
            (\<exists>d e. - 2 \<le> d \<and> d \<le> 2 \<and> - 10 \<le> e \<and> e \<le> 10 \<and>
               p1 = max 0 (min 127 (p + d)) \<and> v1 = max 1 (min 127 (v + e)))))"
proof (intro conjI impI)
  obtain u g1 where u: "rnd_random R g = (u, g1)" by (cases "rnd_random R g")
  have u0: "0 \<le> u" and u1: "u < 1" using ok u unfolding random_ok_def
    by (metis fst_conv)+
  show "fst (apply_randomness R 0 g p v) = (p, v)"
    using u u0 by (simp add: apply_randomness_def)
  obtain d g2 where d: "rnd_randint R (- 2) 2 g1 = (d, g2)"
    by (cases "rnd_randint R (- 2) 2 g1")
  obtain e g3 where e: "rnd_randint R (- 10) 10 g2 = (e, g3)"
    by (cases "rnd_randint R (- 10) 10 g2")
  have "(- 2::int) \<le> 2" "(- 10::int) \<le> 10" by simp_all
  then have db: "- 2 \<le> d \<and> d \<le> 2" and eb: "- 10 \<le> e \<and> e \<le> 10"
    using ok d e unfolding random_ok_def by (metis fst_conv)+
  have r: "fst (apply_randomness R 1 g p v) =
             (max 0 (min 127 (p + d)), max 1 (min 127 (v + e)))"
    using u u1 d e by (simp add: apply_randomness_def Let_def)
  assume rng: "0 \<le> p \<and> p \<le> 127 \<and> 1 \<le> v \<and> v \<le> 127"
  have b: "0 \<le> max 0 (min 127 (p + d))" "max 0 (min 127 (p + d)) \<le> 127"
    "\<bar>max 0 (min 127 (p + d)) - p\<bar> \<le> 2"
    "1 \<le> max 1 (min 127 (v + e))" "max 1 (min 127 (v + e)) \<le> 127"
    "\<bar>max 1 (min 127 (v + e)) - v\<bar> \<le> 10"
    using rng db eb by auto
  show "case fst (apply_randomness R 1 g p v) of (p1, v1) \<Rightarrow>
          0 \<le> p1 \<and> p1 \<le> 127 \<and> \<bar>p1 - p\<bar> \<le> 2 \<and> 1 \<le> v1 \<and> v1 \<le> 127 \<and> \<bar>v1 - v\<bar> \<le> 10 \<and>
          (\<exists>d e. - 2 \<le> d \<and> d \<le> 2 \<and> - 10 \<le> e \<and> e \<le> 10 \<and>
             p1 = max 0 (min 127 (p + d)) \<and> v1 = max 1 (min 127 (v + e)))"
    unfolding r using b db eb by (simp only: prod.case) blast
qed

theorem apply_randomness_bounds_witness:
  "random_ok counter_source \<and>
   fst (apply_randomness counter_source 0 (3::nat) 126 5) = (126, 5) \<and>
   (case fst (apply_randomness counter_source 1 (3::nat) 126 5) of (p1, v1) \<Rightarrow>
      0 \<le> p1 \<and> p1 \<le> 127 \<and> \<bar>p1 - 126\<bar> \<le> 2 \<and> 1 \<le> v1 \<and> v1 \<le> 127 \<and> \<bar>v1 - 5\<bar> \<le> 10)"
  using apply_randomness_bounds [OF counter_source_ok, of 3 126 5] counter_source_ok
  by (simp add: case_prod_unfold)

subsection \<open>The fallback melody\<close>

text \<open>
  Claim C1, at a concrete input. After \<open>create_fallback_melody\<close> on a fresh object (tempo
  120, four beats to the bar) the note of index 4 starts at 2 seconds and carries bar 0 and
  beat 2, from \<open>i // 8\<close> and \<open>(i % 8) / 2.0\<close>; the formula of \<open>load_midi_file\<close> for a
  decoded note starting at 2 seconds gives bar 1 and beat 0.
\<close>

theorem fallback_position_at_index_4:
  "map_sum id (\<lambda>st. (start_time (original_notes st ! 4), bar (original_notes st ! 4),
                       beat (original_notes st ! 4)))
     (create_fallback_melody init_fields) = Inr (2, 0, 2) \<and>
   map_sum id (\<lambda>e. (start_time e, bar e, beat e))
     (note_event_of (tempo init_fields) (time_signature init_fields) (Note 67 80 2 (12 / 5)))
     = Inr (2, 1, 0)"
  by code_simp

text \<open>
  Claim C2 as stated fails: a source that decodes to no notes at all leaves the melody
  empty, no fallback is built.
\<close>

theorem empty_decode_counterexample:
  "load_midi_file init_fields (Decoded None []) = Inr init_fields \<and>
   length (original_notes init_fields) \<noteq> 32"
  by (simp add: load_midi_file_def init_fields_def raw_notes_def)

text \<open>
  Claim C2, amended. When decoding fails on an object that has no notes yet and a tempo
  other than 0, the melody becomes the fallback: 32 notes, the scale
  60, 62, 64, 65, 67, 69, 71, 72 four times over, first pitch 60, last pitch 72, every
  velocity 80, note \<open>i\<close> starting at \<open>i\<close> beat durations, every duration 0.8 beat durations;
  no other field changes.
\<close>

theorem fallback_on_decode_failure:
  assumes "tempo st \<noteq> 0" and "original_notes st = []"
  shows "\<exists>ns. load_midi_file st Undecodable = Inr (st\<lparr>original_notes := ns\<rparr>) \<and>
           length ns = 32 \<and>
           map note' ns = concat (replicate 4 [60, 62, 64, 65, 67, 69, 71, 72]) \<and>
           note' (hd ns) = 60 \<and> note' (last ns) = 72 \<and>
           map velocity ns = replicate 32 80 \<and>
           map start_time ns = map (\<lambda>i. of_nat i * (60 / tempo st)) [0..<32] \<and>
           map duration ns = replicate 32 (8 / 10 * (60 / tempo st))"
proof -
  let ?bd = "60 / tempo st"
  let ?xs = "concat (replicate 4 c_major_scale)"
  let ?ns = "map (\<lambda>(i, n).
               \<lparr>note' = n, velocity = 80, start_time = of_nat i * ?bd,
                duration = ?bd * (8 / 10),
                bar = int (i div 8), beat = of_nat (i mod 8) / 2\<rparr>)
             (enumerate 0 ?xs)"
  have load: "load_midi_file st Undecodable = Inr (st\<lparr>original_notes := ?ns\<rparr>)"
    using assms
    by (simp add: load_midi_file_def create_fallback_melody_def bind_res_def py_truediv_def)
  have len: "length ?ns = 32" by (simp add: fallback_list_length)
  have pitches: "map note' ?ns = ?xs"
    using map_enumerate_snd [of "\<lambda>n. n" 0 ?xs]
    by (simp add: comp_def case_prod_unfold)
  have vels: "map velocity ?ns = replicate 32 80"
    using map_enumerate_snd [of "\<lambda>n. 80::int" 0 ?xs]
    by (simp add: comp_def case_prod_unfold map_replicate_const fallback_list_length)
  have starts: "map start_time ?ns = map (\<lambda>i. of_nat i * ?bd) [0..<32]"
    using map_enumerate_fst [of "\<lambda>i. of_nat i * ?bd" 0 ?xs]
    by (simp add: comp_def case_prod_unfold fallback_list_length)
  have durs: "map duration ?ns = replicate 32 (8 / 10 * ?bd)"
    using map_enumerate_snd [of "\<lambda>n. ?bd * (8 / 10)" 0 ?xs]
    by (simp add: comp_def case_prod_unfold map_replicate_const fallback_list_length)
  have "0 < length ?ns" by (simp only: len)
  then have ne: "?ns \<noteq> []" by (rule length_greater_0_conv [THEN iffD1])
  have xs: "?xs = [60, 62, 64, 65, 67, 69, 71, 72, 60, 62, 64, 65, 67, 69, 71, 72,
                   60, 62, 64, 65, 67, 69, 71, 72, 60, 62, 64, 65, 67, 69, 71, 72]"
    by (simp add: c_major_scale_def eval_nat_numeral)
  note p2 = trans [OF pitches xs]
  have "note' (hd ?ns) = hd (map note' ?ns)" by (rule hd_map [OF ne, symmetric])
  also have "\<dots> = 60" by (simp only: p2 list.sel)
  finally have first: "note' (hd ?ns) = 60" .
  have "note' (last ?ns) = last (map note' ?ns)" by (rule last_map [OF ne, symmetric])
  also have "\<dots> = 72" unfolding p2 by simp
  finally have final: "note' (last ?ns) = 72" .
  have scale: "map note' ?ns = concat (replicate 4 [60, 62, 64, 65, 67, 69, 71, 72])"
    using pitches unfolding c_major_scale_def .
  show ?thesis
  proof (intro exI conjI)
    show "load_midi_file st Undecodable = Inr (st\<lparr>original_notes := ?ns\<rparr>)" by (rule load)
    show "length ?ns = 32" by (rule len)
    show "map note' ?ns = concat (replicate 4 [60, 62, 64, 65, 67, 69, 71, 72])" by (rule scale)
    show "note' (hd ?ns) = 60" by (rule first)
    show "note' (last ?ns) = 72" by (rule final)
    show "map velocity ?ns = replicate 32 80" by (rule vels)
    show "map start_time ?ns = map (\<lambda>i. of_nat i * ?bd) [0..<32]" by (rule starts)
    show "map duration ?ns = replicate 32 (8 / 10 * ?bd)" by (rule durs)
  qed
qed

theorem fallback_on_decode_failure_witness:
  "tempo init_fields \<noteq> 0 \<and> original_notes init_fields = [] \<and>
   (\<exists>ns. load_midi_file init_fields Undecodable = Inr (init_fields\<lparr>original_notes := ns\<rparr>) \<and>
      length ns = 32 \<and>
      map note' ns = concat (replicate 4 [60, 62, 64, 65, 67, 69, 71, 72]) \<and>
      note' (hd ns) = 60 \<and> note' (last ns) = 72 \<and>
      map velocity ns = replicate 32 80 \<and>
      map start_time ns = map (\<lambda>i. of_nat i * (60 / tempo init_fields)) [0..<32] \<and>
      map duration ns = replicate 32 (8 / 10 * (60 / tempo init_fields)))"
proof -
  have h: "tempo init_fields \<noteq> 0" "original_notes init_fields = []"
    by (simp_all add: init_fields_def)
  show ?thesis
  proof (intro conjI)
    show "tempo init_fields \<noteq> 0" by (rule h(1))
    show "original_notes init_fields = []" by (rule h(2))
  qed (rule fallback_on_decode_failure [OF h])
qed

subsection \<open>Starting without an input device\<close>

text \<open>
  Claim C7 as stated fails: without an input device \<open>start\<close> returns normally, no error
  reaches the caller.
\<close>

theorem start_without_input_counterexample:
  "midi_input init_fields = None \<and>
   start init_fields 5 =
     Inr (init_fields, [Print ''No MIDI input device available. Cannot start system.''])"
  by (simp add: start_def init_fields_def)

text \<open>
  Claim C7, amended. Without an input device \<open>start\<close> prints a message and returns
  normally; the object is unchanged (the start instant stays as it was, the playing flag
  too) and no listener is spawned.
\<close>

theorem start_without_input:
  "midi_input st = None \<Longrightarrow>
   start st now = Inr (st, [Print ''No MIDI input device available. Cannot start system.''])"
  by (simp add: start_def)

theorem start_without_input_witness:
  "midi_input init_fields = None \<and>
   start init_fields 7 =
     Inr (init_fields, [Print ''No MIDI input device available. Cannot start system.'']) \<and>
   session_start init_fields = None \<and> \<not> is_playing init_fields"
proof -
  have h: "midi_input init_fields = None" by (simp add: init_fields_def)
  show ?thesis using start_without_input [OF h, of 7] h by (simp add: init_fields_def)
qed

subsection \<open>A trigger on an empty melody\<close>

text \<open>
  Claim C8 as stated fails: on an empty melody \<open>process_input_note\<close> returns normally, and
  on a fresh object it creates the cursor.
\<close>

theorem empty_melody_counterexample:
  "original_notes init_fields = [] \<and>
   process_input_note counter_source init_fields 0 60 100 =
     Inr (init_fields\<lparr>melody_index := Some 0\<rparr>, 0, None, [Print ''No original melody loaded.'']) \<and>
   init_fields\<lparr>melody_index := Some 0\<rparr> \<noteq> init_fields"
  by (simp add: process_input_note_def cursor_def init_fields_def)

text \<open>
  Claim C8, amended. On an empty melody \<open>process_input_note\<close> prints a message and returns
  normally: nothing is sent to the output, no random number is drawn, and the object is
  unchanged but for the cursor, which is created with value 0 when it did not exist.
\<close>

theorem empty_melody_returns:
  "original_notes st = [] \<Longrightarrow>
   process_input_note R st g p v =
     Inr (st\<lparr>melody_index := Some (case melody_index st of None \<Rightarrow> 0 | Some i \<Rightarrow> i)\<rparr>,
          g, None, [Print ''No original melody loaded.''])"
  by (simp add: process_input_note_def cursor_def)

theorem empty_melody_returns_witness:
  "original_notes init_fields = [] \<and>
   process_input_note counter_source init_fields 4 61 90 =
     Inr (init_fields\<lparr>melody_index := Some 0\<rparr>, 4, None, [Print ''No original melody loaded.''])"
proof -
  have h: "original_notes init_fields = []" by (simp add: init_fields_def)
  show ?thesis using empty_melody_returns [OF h, of counter_source 4 61 90] h
    by (simp add: init_fields_def)
qed

subsection \<open>Stopping twice\<close>

text \<open>
  Claim C6, at a concrete input. An object holds input device 0 and output device 1, both
  open in an initialised \<open>pygame.midi\<close>. The first \<open>stop\<close> returns: it closes both handles,
  shuts the library down and prints. The second \<open>stop\<close> finds the same handle in
  \<open>midi_input\<close>, calls its \<open>close()\<close> again and leaves with \<open>RuntimeError\<close> there: the
  output is not closed again, the library is not shut down again, nothing is printed.
\<close>

theorem stop_twice_raises:
  "stop pygame_midi
     (init_fields\<lparr>is_playing := True, midi_input := Some 0, midi_output := Some 1\<rparr>)
     \<lparr>pm_init = True, pm_open = [0, 1]\<rparr> =
     (None, init_fields\<lparr>is_playing := False, midi_input := Some 0, midi_output := Some 1\<rparr>,
      \<lparr>pm_init = False, pm_open = []\<rparr>,
      [CloseInput 0, CloseOutput 1, MidiQuit, Print ''Dog MIDI System stopped!'']) \<and>
   stop_twice pygame_midi
     (init_fields\<lparr>is_playing := True, midi_input := Some 0, midi_output := Some 1\<rparr>)
     \<lparr>pm_init = True, pm_open = [0, 1]\<rparr> =
     (Some RuntimeError,
      init_fields\<lparr>is_playing := False, midi_input := Some 0, midi_output := Some 1\<rparr>,
      \<lparr>pm_init = False, pm_open = []\<rparr>,
      [CloseInput 0, CloseOutput 1, MidiQuit, Print ''Dog MIDI System stopped!'',
       CloseInput 0])"
  by (simp add: stop_twice_def stop_def init_fields_def pygame_midi_def pygame_close_def
      pygame_quit_def)

subsection \<open>The input trigger does not matter\<close>

text \<open>
  Claim C10. From the same object and the same state of the random source, two calls of
  \<open>process_input_note\<close> with any two pitches and any two velocities give the same result:
  the same new object, generator state, melody note and effects, hence the same pitch and
  velocity sent to the output.
\<close>

theorem process_input_note_ignores_input:
  "process_input_note R st g pitch1 velocity1 = process_input_note R st g pitch2 velocity2"
  by (simp add: process_input_note_def)

subsection \<open>The decoded melody is sorted, stably\<close>

text \<open>
  Claim C9. On an object without notes, with a tempo and a number of beats per bar other
  than 0, loading a decoded file succeeds and leaves a melody that is sorted ascending by
  start time, has as many notes as the raw note list (the notes of the instruments that
  are not drums), and is stable: for every start time, the notes of the melody with that
  start time are the raw notes with that start time, in their original order, each with
  its pitch, velocity, start and duration.
\<close>

theorem load_sorted_stable:
  assumes fresh: "original_notes st = []"
    and tempo_ok: "(case tempo_change of None \<Rightarrow> tempo st | Some t \<Rightarrow> t) \<noteq> 0"
    and bpb_ok: "fst (time_signature st) \<noteq> 0"
  shows "\<exists>ns. load_midi_file st (Decoded tempo_change instruments) =
             Inr (st\<lparr>tempo := (case tempo_change of None \<Rightarrow> tempo st | Some t \<Rightarrow> t),
                     original_notes := ns\<rparr>) \<and>
           sorted (map start_time ns) \<and>
           length ns = length (raw_notes instruments) \<and>
           (\<forall>t. map (\<lambda>e. (note' e, velocity e, start_time e, duration e))
                  (filter (\<lambda>e. start_time e = t) ns) =
                map (\<lambda>n. (n_pitch n, n_velocity n, n_start n, n_end n - n_start n))
                  (filter (\<lambda>n. n_start n = t) (raw_notes instruments)))"
proof -
  let ?tmp = "case tempo_change of None \<Rightarrow> tempo st | Some t \<Rightarrow> t"
  let ?st1 = "case tempo_change of None \<Rightarrow> st | Some t \<Rightarrow> st\<lparr>tempo := t\<rparr>"
  let ?raw = "raw_notes instruments"
  have st1: "?st1 = st\<lparr>tempo := ?tmp\<rparr>" by (cases tempo_change) simp_all
  have f1: "tempo ?st1 = ?tmp" "time_signature ?st1 = time_signature st"
    "original_notes ?st1 = []"
    using fresh by (cases tempo_change; simp)+
  obtain evs where evs: "extract_notes ?tmp (time_signature st) ?raw [] = ([] @ evs, None)"
    and same: "map (\<lambda>e. (note' e, velocity e, start_time e, duration e)) evs =
               map (\<lambda>n. (n_pitch n, n_velocity n, n_start n, n_end n - n_start n)) ?raw"
    using extract_notes_ok [OF tempo_ok bpb_ok, of ?raw "[]"] by blast
  let ?ns = "sort_key start_time evs"
  have load: "load_midi_file st (Decoded tempo_change instruments) =
                Inr (st\<lparr>tempo := ?tmp, original_notes := ?ns\<rparr>)"
    using evs fresh by (simp add: load_midi_file_def Let_def f1 st1)
  have srt: "sorted (map start_time ?ns)" by (rule sorted_sort_key)
  have "length evs = length ?raw" using same by (rule map_eq_imp_length_eq)
  then have len: "length ?ns = length ?raw" by simp
  have stable: "map (\<lambda>e. (note' e, velocity e, start_time e, duration e))
                  (filter (\<lambda>e. start_time e = t) ?ns) =
                map (\<lambda>n. (n_pitch n, n_velocity n, n_start n, n_end n - n_start n))
                  (filter (\<lambda>n. n_start n = t) ?raw)" for t
  proof -
    have "filter (\<lambda>e. start_time e = t) ?ns = filter (\<lambda>e. start_time e = t) evs"
      by (rule sort_key_stable)
    moreover have "map (\<lambda>e. (note' e, velocity e, start_time e, duration e))
                  (filter (\<lambda>e. start_time e = t) evs) =
                map (\<lambda>n. (n_pitch n, n_velocity n, n_start n, n_end n - n_start n))
                  (filter (\<lambda>n. n_start n = t) ?raw)"
      by (rule filter_by_key [OF same, of "\<lambda>p. fst (snd (snd p))"]) simp_all
    ultimately show ?thesis by simp
  qed
  show ?thesis
  proof (intro exI conjI allI)
    show "load_midi_file st (Decoded tempo_change instruments) =
            Inr (st\<lparr>tempo := ?tmp, original_notes := ?ns\<rparr>)" by (rule load)
    show "sorted (map start_time ?ns)" by (rule srt)
    show "length ?ns = length ?raw" by (rule len)
    show "map (\<lambda>e. (note' e, velocity e, start_time e, duration e))
                  (filter (\<lambda>e. start_time e = t) ?ns) =
                map (\<lambda>n. (n_pitch n, n_velocity n, n_start n, n_end n - n_start n))
                  (filter (\<lambda>n. n_start n = t) ?raw)" for t by (rule stable)
  qed
qed

theorem load_sorted_stable_witness:
  "original_notes init_fields = [] \<and>
   (case Some 60 of None \<Rightarrow> tempo init_fields | Some t \<Rightarrow> t) \<noteq> 0 \<and>
   fst (time_signature init_fields) \<noteq> 0 \<and>
   (\<exists>ns. load_midi_file init_fields (Decoded (Some 60) sample_instruments) =
             Inr (init_fields\<lparr>tempo := (case Some 60 of None \<Rightarrow> tempo init_fields | Some t \<Rightarrow> t),
                     original_notes := ns\<rparr>) \<and>
           sorted (map start_time ns) \<and>
           length ns = length (raw_notes sample_instruments) \<and>
           (\<forall>t. map (\<lambda>e. (note' e, velocity e, start_time e, duration e))
                  (filter (\<lambda>e. start_time e = t) ns) =
                map (\<lambda>n. (n_pitch n, n_velocity n, n_start n, n_end n - n_start n))
                  (filter (\<lambda>n. n_start n = t) (raw_notes sample_instruments))))"
proof -
  have h1: "original_notes init_fields = []" by (simp add: init_fields_def)
  have h2: "(case Some 60 of None \<Rightarrow> tempo init_fields | Some t \<Rightarrow> t) \<noteq> 0" by simp
  have h3: "fst (time_signature init_fields) \<noteq> 0" by (simp add: init_fields_def)
  show ?thesis
  proof (intro conjI)
    show "original_notes init_fields = []" by (rule h1)
    show "(case Some 60 of None \<Rightarrow> tempo init_fields | Some t \<Rightarrow> t) \<noteq> 0" by (rule h2)
    show "fst (time_signature init_fields) \<noteq> 0" by (rule h3)
  qed (rule load_sorted_stable [OF h1 h2 h3])
qed

subsection \<open>Sequential advance\<close>



subsection \<open>The nearest match is the earliest survivor of least score\<close>

text \<open>
  Claim C4. For every melody, input pitch and current bar and beat: \<open>find_closest_note\<close>
  returns no note exactly when no note of the melody survives the three filters (bar
  within 1 of the current bar, pitch within the correction range, beat within the timing
  tolerance converted to beats). When it returns a note, that note survives the filters,
  every survivor before it in the melody has a strictly greater score and every survivor
  after it a score at least as great: it is the earliest survivor of minimal score
  \<open>0.7 * pitchDiff + 0.3 * beatDiff\<close>. Hence whenever some survivor scores 0, the note
  returned scores 0. The function is pure: it emits nothing.
\<close>

theorem nearest_match:
  "(find_closest_note st p cbar cbeat = None \<longleftrightarrow>
      (\<forall>e\<in>set (original_notes st). \<not> survives st p cbar cbeat e)) \<and>
   (\<forall>r. find_closest_note st p cbar cbeat = Some r \<longrightarrow>
      (\<exists>pre post. original_notes st = pre @ r # post \<and> survives st p cbar cbeat r \<and>
         (\<forall>e\<in>set pre. survives st p cbar cbeat e \<longrightarrow>
            match_score p cbeat r < match_score p cbeat e) \<and>
         (\<forall>e\<in>set post. survives st p cbar cbeat e \<longrightarrow>
            match_score p cbeat r \<le> match_score p cbeat e))) \<and>
   (\<forall>z\<in>set (original_notes st). survives st p cbar cbeat z \<and> match_score p cbeat z = 0 \<longrightarrow>
      (\<exists>r. find_closest_note st p cbar cbeat = Some r \<and> match_score p cbeat r = 0))"
proof -
  let ?ns = "original_notes st"
  let ?B = "\<lambda>e. \<bar>bar e - cbar\<bar> \<le> 1"
  let ?ok = "within_tolerance st p cbeat"
  let ?sv = "survives st p cbar cbeat"
  let ?sc = "match_score p cbeat"
  let ?cands = "filter ?B ?ns"
  let ?res = "find_closest_note st p cbar cbeat"
  have fc: "?res = fst (best_match st p cbeat ?cands (None, None))"
    by (simp add: find_closest_note_def Let_def)
  have sv: "?sv e \<longleftrightarrow> ?B e \<and> ?ok e" for e by (simp add: survives_def)
  note bm = best_match_from_none [of st p cbeat ?cands]
  have none: "?res = None \<longleftrightarrow> (\<forall>e\<in>set ?ns. \<not> ?sv e)"
    unfolding fc using bm [THEN conjunct1] by (auto simp add: sv)
  have some: "\<exists>pre post. ?ns = pre @ r # post \<and> ?sv r \<and>
         (\<forall>e\<in>set pre. ?sv e \<longrightarrow> ?sc r < ?sc e) \<and>
         (\<forall>e\<in>set post. ?sv e \<longrightarrow> ?sc r \<le> ?sc e)"
    if r: "?res = Some r" for r
  proof -
    from r have "fst (best_match st p cbeat ?cands (None, None)) = Some r" unfolding fc .
    then obtain pre' post' where c: "?cands = pre' @ r # post'" and okr: "?ok r"
      and lt: "\<forall>e\<in>set pre'. ?ok e \<longrightarrow> ?sc r < ?sc e"
      and le: "\<forall>e\<in>set post'. ?ok e \<longrightarrow> ?sc r \<le> ?sc e"
      using bm [THEN conjunct2] by blast
    obtain pre post where sp: "?ns = pre @ r # post" and fp: "filter ?B pre = pre'"
      and fq: "filter ?B post = post'" and br: "?B r"
      using filter_split [OF c] by blast
    have svr: "?sv r" using br okr by (simp add: sv)
    have lt': "\<forall>e\<in>set pre. ?sv e \<longrightarrow> ?sc r < ?sc e"
    proof (intro ballI impI)
      fix e assume "e \<in> set pre" and "?sv e"
      then have "e \<in> set pre'" and "?ok e" unfolding fp [symmetric] by (simp_all add: sv)
      then show "?sc r < ?sc e" using lt by blast
    qed
    have le': "\<forall>e\<in>set post. ?sv e \<longrightarrow> ?sc r \<le> ?sc e"
    proof (intro ballI impI)
      fix e assume "e \<in> set post" and "?sv e"
      then have "e \<in> set post'" and "?ok e" unfolding fq [symmetric] by (simp_all add: sv)
      then show "?sc r \<le> ?sc e" using le by blast
    qed
    show ?thesis using sp svr lt' le' by blast
  qed
  have zero: "\<exists>r. ?res = Some r \<and> ?sc r = 0"
    if z: "z \<in> set ?ns" and svz: "?sv z" and scz: "?sc z = 0" for z
  proof -
    have "?res \<noteq> None" using none z svz by blast
    then obtain r where r: "?res = Some r" by blast
    obtain pre post where sp: "?ns = pre @ r # post"
      and lt: "\<forall>e\<in>set pre. ?sv e \<longrightarrow> ?sc r < ?sc e"
      and le: "\<forall>e\<in>set post. ?sv e \<longrightarrow> ?sc r \<le> ?sc e"
      using some [OF r] by blast
    from z sp have "z \<in> set pre \<or> z = r \<or> z \<in> set post" by auto
    then have "?sc r \<le> ?sc z" using lt le svz by fastforce
    then have "?sc r = 0" using scz match_score_nonneg [of p cbeat r] by simp
    then show ?thesis using r by blast
  qed
  show ?thesis
  proof (intro conjI allI impI ballI)
    show "?res = None \<longleftrightarrow> (\<forall>e\<in>set ?ns. \<not> ?sv e)" by (rule none)
  next
    fix r assume "?res = Some r"
    then show "\<exists>pre post. ?ns = pre @ r # post \<and> ?sv r \<and>
         (\<forall>e\<in>set pre. ?sv e \<longrightarrow> ?sc r < ?sc e) \<and>
         (\<forall>e\<in>set post. ?sv e \<longrightarrow> ?sc r \<le> ?sc e)" by (rule some)
  next
    fix z assume "z \<in> set ?ns" and "?sv z \<and> ?sc z = 0"
    then show "\<exists>r. ?res = Some r \<and> ?sc r = 0" using zero by blast
  qed
qed

theorem nearest_match_witness:
  "\<lparr>note' = 64, velocity = 90, start_time = 1 / 2, duration = 2 / 5, bar = 0, beat = 1\<rparr>
     \<in> set (original_notes two_note_session) \<and>
   survives two_note_session 64 0 1
     \<lparr>note' = 64, velocity = 90, start_time = 1 / 2, duration = 2 / 5, bar = 0, beat = 1\<rparr> \<and>
   match_score 64 1
     \<lparr>note' = 64, velocity = 90, start_time = 1 / 2, duration = 2 / 5, bar = 0, beat = 1\<rparr> = 0 \<and>
   (\<exists>r. find_closest_note two_note_session 64 0 1 = Some r \<and> match_score 64 1 r = 0)"
proof -
  let ?z = "\<lparr>note' = 64, velocity = 90, start_time = 1 / 2, duration = 2 / 5, bar = 0,
             beat = 1\<rparr>"
  have a: "?z \<in> set (original_notes two_note_session)"
    by (simp add: two_note_session_def)
  have b: "survives two_note_session 64 0 1 ?z"
    by (simp add: survives_def within_tolerance_def two_note_session_def init_fields_def)
  have c: "match_score 64 1 ?z = 0" by (simp add: match_score_def)
  have "\<forall>z\<in>set (original_notes two_note_session).
          survives two_note_session 64 0 1 z \<and> match_score 64 1 z = 0 \<longrightarrow>
          (\<exists>r. find_closest_note two_note_session 64 0 1 = Some r \<and> match_score 64 1 r = 0)"
    by (rule nearest_match [of two_note_session 64 0 1, THEN conjunct2, THEN conjunct2])
  then have d: "\<exists>r. find_closest_note two_note_session 64 0 1 = Some r \<and>
                     match_score 64 1 r = 0"
    using a b c by blast
  show ?thesis using a b c d by (intro conjI)
qed

end
